theory Spec2Isabelle
  imports Main
begin

section \<open>Text: code points, the script range, runs and joins\<close>

text \<open>
  A Python \<open>str\<close> that carries page text is a list of Unicode code points (natural
  numbers): \<open>len\<close> counts code points, and the Malayalam block does not fit a byte.
  Byte strings (a record's payload) and file paths are \<open>string\<close>.
\<close>

type_synonym ustring = "nat list"

definition SPACE :: nat where
  "SPACE = 32"

text \<open>The character class of the regular expression in line 69: the code points U+0D00 to U+0D7F.\<close>

definition is_malayalam :: "nat \<Rightarrow> bool" where
  "is_malayalam c = (0x0D00 \<le> c \<and> c \<le> 0x0D7F)"

text \<open>
  \<open>re.findall\<close> with one or more characters of the class as the pattern: the scan
  goes left to right; at a character of the class the greedy \<open>+\<close> takes every following character of the class, the match
  is recorded and the scan resumes after it; any other character is skipped.
\<close>

function findall :: "ustring \<Rightarrow> ustring list" where
  "findall [] = []"
| "findall (c # cs) =
     (if is_malayalam c
      then (c # takeWhile is_malayalam cs) # findall (dropWhile is_malayalam cs)
      else findall cs)"
  by pat_completeness auto
termination
  by (relation "measure length") (auto simp: length_dropWhile_le less_Suc_eq_le)

text \<open>\<open>sep.join(xs)\<close>.\<close>

fun join :: "'a list \<Rightarrow> 'a list list \<Rightarrow> 'a list" where
  "join sep [] = []"
| "join sep [x] = x"
| "join sep (x # y # ys) = x @ sep @ join sep (y # ys)"

text \<open>
  \<open>str.isspace\<close> for one code point, and \<open>str.strip()\<close> with no argument, which
  removes the white space at both ends.
\<close>

definition isspace :: "nat \<Rightarrow> bool" where
  "isspace c =
     ((0x09 \<le> c \<and> c \<le> 0x0D) \<or> (0x1C \<le> c \<and> c \<le> 0x20) \<or> c = 0x85 \<or> c = 0xA0 \<or>
      c = 0x1680 \<or> (0x2000 \<le> c \<and> c \<le> 0x200A) \<or> c = 0x2028 \<or> c = 0x2029 \<or>
      c = 0x202F \<or> c = 0x205F \<or> c = 0x3000)"

definition strip :: "ustring \<Rightarrow> ustring" where
  "strip s = rev (dropWhile isspace (rev (dropWhile isspace s)))"

section \<open>The parsed document\<close>

text \<open>
  The tree that \<open>BeautifulSoup(html_content, 'html.parser')\<close> builds: an element with
  its name and children, or a text node. The constructor itself (decoding the bytes and
  building the tree) is the library's; it is a parameter of the model, \<open>None\<close> standing
  for the exception that line 61 catches.
  Nodes that \<open>stripped_strings\<close> passes over (comments, declarations) are not part of
  the tree.
\<close>

datatype node = Tag string "node list" | NavigableString ustring

type_synonym soup = "node list"

type_synonym parser = "string \<Rightarrow> soup option"

text \<open>
  Lines 65-66: \<open>soup(names)\<close> finds every element, at any depth, whose name is one of
  \<open>names\<close>, and \<open>decompose\<close> removes each with all it contains. What is left of one
  node is no node or one node.
\<close>

fun decompose :: "string list \<Rightarrow> node \<Rightarrow> node list" where
  "decompose names (NavigableString s) = [NavigableString s]"
| "decompose names (Tag n cs) =
     (if n \<in> set names then [] else [Tag n (concat (map (decompose names) cs))])"

definition decompose_all :: "string list \<Rightarrow> soup \<Rightarrow> soup" where
  "decompose_all names sp = concat (map (decompose names) sp)"

text \<open>
  \<open>soup.stripped_strings\<close>: the text nodes in document order, each stripped, the
  empty ones left out.
\<close>

fun strings :: "node \<Rightarrow> ustring list" where
  "strings (NavigableString s) = [s]"
| "strings (Tag n cs) = concat (map strings cs)"

definition stripped_strings :: "soup \<Rightarrow> ustring list" where
  "stripped_strings sp = filter (\<lambda>s. s \<noteq> []) (map strip (concat (map strings sp)))"

section \<open>process_and_check_malayalam_text\<close>

definition reduced_text :: "soup \<Rightarrow> ustring" where
  "reduced_text sp = join [SPACE] (stripped_strings (decompose_all [''style'', ''script''] sp))"

definition process_and_check_malayalam_text :: "parser \<Rightarrow> string \<Rightarrow> int \<Rightarrow> ustring option" where
  "process_and_check_malayalam_text BeautifulSoup html_content min_malayalam_words =
     (case BeautifulSoup html_content of
        None \<Rightarrow> None
      | Some sp \<Rightarrow>
          (let text_content = join [SPACE] (findall (reduced_text sp))
           in if int (length text_content) \<ge> min_malayalam_words
              then Some text_content else None))"

definition DEFAULT_MIN_MALAYALAM_WORDS :: int where
  "DEFAULT_MIN_MALAYALAM_WORDS = 40"

section \<open>Constants\<close>

definition MAX_RETRIES :: nat where
  "MAX_RETRIES = 20"

definition RETRY_DELAY :: nat where
  "RETRY_DELAY = 10"

definition URL_PATH :: string where
  "URL_PATH = ''warc.paths''"

definition OUTPUT_DIRECTORY :: string where
  "OUTPUT_DIRECTORY = ''Extracted_files/''"

definition EXTRACTED_TEXT_DIRECTORY :: string where
  "EXTRACTED_TEXT_DIRECTORY = ''Extracted Texts/''"

section \<open>Paths and the token pattern\<close>

text \<open>
  Paths and the lines of the list of sources are \<open>string\<close>s: code points below 256. On
  these, the class \<open>\d\<close> of the pattern in line 105 is the ten ASCII digits.
\<close>

definition isdigit :: "char \<Rightarrow> bool" where
  "isdigit c = (48 \<le> (of_char c :: nat) \<and> (of_char c :: nat) \<le> 57)"

text \<open>\<open>$\<close> matches at the end of the string and just before a newline that ends it.\<close>

definition at_end :: "string \<Rightarrow> bool" where
  "at_end rest = (rest = [] \<or> rest = [CHR 0x0A])"

text \<open>
  The pattern of line 105 matched at the start of \<open>s\<close>: fourteen digits, a dash, five
  digits (these twenty characters are group 1), then \<open>.warc.gz\<close>, then the end.
\<close>

definition match_here :: "string \<Rightarrow> string option" where
  "match_here s =
     (let timestamp = take 14 s; dash = take 1 (drop 14 s); sequence = take 5 (drop 15 s);
          suffix = take 8 (drop 20 s); rest = drop 28 s
      in if length timestamp = 14 \<and> list_all isdigit timestamp \<and> dash = ''-'' \<and>
            length sequence = 5 \<and> list_all isdigit sequence \<and> suffix = ''.warc.gz'' \<and>
            at_end rest
         then Some (take 20 s) else None)"

text \<open>\<open>re.search\<close>: the leftmost position where the pattern matches; the result is group 1.\<close>

fun re_search :: "string \<Rightarrow> string option" where
  "re_search [] = match_here []"
| "re_search (c # cs) =
     (case match_here (c # cs) of Some g \<Rightarrow> Some g | None \<Rightarrow> re_search cs)"

text \<open>\<open>os.path.join\<close> of two components, \<open>os.path.basename\<close>, and \<open>strip\<close> on a line.\<close>

definition path_join :: "string \<Rightarrow> string \<Rightarrow> string" where
  "path_join a b =
     (if take 1 b = ''/'' then b
      else if a = [] \<or> last a = CHR ''/'' then a @ b
      else a @ ''/'' @ b)"

definition basename :: "string \<Rightarrow> string" where
  "basename p = rev (takeWhile (\<lambda>c. c \<noteq> CHR ''/'') (rev p))"

definition strip_line :: "string \<Rightarrow> string" where
  "strip_line s =
     rev (dropWhile (\<lambda>c. isspace (of_char c)) (rev (dropWhile (\<lambda>c. isspace (of_char c)) s)))"

section \<open>Files, logs and the world\<close>

text \<open>
  The world is the files by path and the trace of transfers and waits; directories
  (created at import, lines 43-44) and what is printed are left out.
  A file is the sequence of what was written to it: the records of an archive, the
  chunks of text of an output file, the rows of a log. The three numeric columns of a
  metrics row (sizes and elapsed minutes) are floating-point values of the clock and of
  byte counts; a row keeps the two columns that are strings.
\<close>

datatype warc_record = WarcRecord (rec_type: string) (payload: string)

datatype csv_row = Header "string list" | MetricsRow string string | ErrorRow string

datatype item = Rec warc_record | Chars ustring | Line csv_row

datatype event = Wget string string nat nat | Sleep nat

datatype error = FileNotFoundError | ArchiveLoadFailed | UnboundLocalError

record world =
  fs :: "string \<rightharpoonup> item list"
  trace :: "event list"

text \<open>
  The network is a parameter: at the time \<open>t\<close> (the number of events so far) a transfer
  of \<open>url\<close> ends with exit status zero or not, and leaves a file, or none, at the
  destination.
\<close>

type_synonym network = "nat \<Rightarrow> string \<Rightarrow> bool \<times> item list option"

definition file_content :: "world \<Rightarrow> string \<Rightarrow> item list" where
  "file_content w p = (case fs w p of None \<Rightarrow> [] | Some xs \<Rightarrow> xs)"

text \<open>\<open>open(p, 'w')\<close> truncates or creates; \<open>open(p, 'a')\<close> followed by one write appends.\<close>

definition open_w :: "string \<Rightarrow> world \<Rightarrow> world" where
  "open_w p w = w\<lparr>fs := (fs w)(p \<mapsto> [])\<rparr>"

definition append_item :: "string \<Rightarrow> item \<Rightarrow> world \<Rightarrow> world" where
  "append_item p x w = w\<lparr>fs := (fs w)(p \<mapsto> file_content w p @ [x])\<rparr>"

definition os_remove :: "string \<Rightarrow> world \<Rightarrow> (error + unit) \<times> world" where
  "os_remove p w =
     (if fs w p = None then (Inl FileNotFoundError, w)
      else (Inr (), w\<lparr>fs := (fs w)(p := None)\<rparr>))"

text \<open>
  Line 155: one run of \<open>wget url -O dest --tries tries --wait wait\<close> under
  \<open>check_call\<close>; \<open>False\<close> is \<open>CalledProcessError\<close>.
\<close>

definition wget :: "network \<Rightarrow> string \<Rightarrow> string \<Rightarrow> nat \<Rightarrow> nat \<Rightarrow> world \<Rightarrow> bool \<times> world" where
  "wget net url dest tries wait w =
     (case net (length (trace w)) url of
        (ok, left) \<Rightarrow>
          (ok, w\<lparr>fs := (fs w)(dest := left), trace := trace w @ [Wget url dest tries wait]\<rparr>))"

definition sleep :: "nat \<Rightarrow> world \<Rightarrow> world" where
  "sleep d w = w\<lparr>trace := trace w @ [Sleep d]\<rparr>"

section \<open>convert_warc_to_text\<close>

text \<open>
  The body of the loop of lines 92-111 for one record. \<open>out\<close> holds the local
  variables \<open>output_file_name\<close> and \<open>output_file_path\<close>, \<open>None\<close> while they are unbound.
\<close>

definition scan_step ::
  "parser \<Rightarrow> string \<Rightarrow> string \<Rightarrow> warc_record \<Rightarrow> (string \<times> string) option \<times> world \<Rightarrow>
   (string \<times> string) option \<times> world" where
  "scan_step bs warc_file_path output_dir record st =
     (case st of (out, w) \<Rightarrow>
        if rec_type record = ''response'' then
          (case process_and_check_malayalam_text bs (payload record) DEFAULT_MIN_MALAYALAM_WORDS of
             None \<Rightarrow> (out, w)
           | Some content \<Rightarrow>
               (case re_search warc_file_path of
                  None \<Rightarrow> (out, w)
                | Some unique_string \<Rightarrow>
                    (let output_file_name = ''extracted_text_'' @ unique_string @ ''.txt'';
                         output_file_path = path_join output_dir output_file_name
                     in (Some (output_file_name, output_file_path),
                         append_item output_file_path (Chars content) w))))
        else (out, w))"

text \<open>
  The loop over the archive. \<open>ArchiveIterator\<close> yields the records in order; what is
  not a record makes it raise, and nothing catches that. The archive is read as it was
  when line 91 opened it: the loop writes to the output file only, and the path of that
  file is never the path of the archive (lemma \<open>output_path_not_archive\<close>).
\<close>

fun scan_loop ::
  "parser \<Rightarrow> string \<Rightarrow> string \<Rightarrow> item list \<Rightarrow> (string \<times> string) option \<times> world \<Rightarrow>
   error option \<times> (string \<times> string) option \<times> world" where
  "scan_loop bs warc_file_path output_dir [] st = (None, st)"
| "scan_loop bs warc_file_path output_dir (Rec r # its) st =
     scan_loop bs warc_file_path output_dir its (scan_step bs warc_file_path output_dir r st)"
| "scan_loop bs warc_file_path output_dir (x # its) st = (Some ArchiveLoadFailed, st)"

definition convert_warc_to_text ::
  "parser \<Rightarrow> string \<Rightarrow> string \<Rightarrow> string \<Rightarrow> world \<Rightarrow> (error + unit) \<times> world" where
  "convert_warc_to_text bs warc_file_path output_dir csv_file_path w =
     (case fs w warc_file_path of
        None \<Rightarrow> (Inl FileNotFoundError, w)
      | Some items \<Rightarrow>
          (case scan_loop bs warc_file_path output_dir items (None, w) of
             (Some e, out, w') \<Rightarrow> (Inl e, w')
           | (None, None, w') \<Rightarrow> (Inl UnboundLocalError, w')
           | (None, Some (output_file_name, output_file_path), w') \<Rightarrow>
               (Inr (),
                append_item csv_file_path (Line (MetricsRow output_file_name output_file_path)) w')))"

section \<open>main\<close>

definition csv_file_path :: string where
  "csv_file_path = path_join EXTRACTED_TEXT_DIRECTORY ''extraction_info.csv''"

definition errors_file_path :: string where
  "errors_file_path = path_join EXTRACTED_TEXT_DIRECTORY ''error_log_info.csv''"

definition METRICS_FIELDNAMES :: "string list" where
  "METRICS_FIELDNAMES =
     [''File Name'', ''File Path'', ''Input File Size (MB)'', ''Output File Size (KB)'',
      ''Time Taken (Minutes)'']"

definition ERRORS_FIELDNAMES :: "string list" where
  "ERRORS_FIELDNAMES = [''File Path'']"

text \<open>
  Lines 153-160, the \<open>for\<close> over \<open>range(max_retries)\<close> with \<open>k\<close> iterations left: \<open>True\<close>
  is the \<open>break\<close>, \<open>False\<close> the exhausted loop, after which the \<open>else\<close> of line 161 runs.
\<close>

fun retry_loop ::
  "network \<Rightarrow> nat \<Rightarrow> nat \<Rightarrow> nat \<Rightarrow> string \<Rightarrow> string \<Rightarrow> world \<Rightarrow> bool \<times> world" where
  "retry_loop net max_retries retry_delay 0 url local_filename w = (False, w)"
| "retry_loop net max_retries retry_delay (Suc k) url local_filename w =
     (case wget net url local_filename max_retries retry_delay w of
        (True, w') \<Rightarrow> (True, w')
      | (False, w') \<Rightarrow>
          retry_loop net max_retries retry_delay k url local_filename (sleep retry_delay w'))"

definition download :: "network \<Rightarrow> nat \<Rightarrow> nat \<Rightarrow> string \<Rightarrow> string \<Rightarrow> world \<Rightarrow> bool \<times> world" where
  "download net max_retries retry_delay url local_filename w =
     retry_loop net max_retries retry_delay max_retries url local_filename w"

text \<open>The body of the loop of lines 148-174 for one line of the list.\<close>

definition process_line :: "parser \<Rightarrow> network \<Rightarrow> string \<Rightarrow> world \<Rightarrow> (error + unit) \<times> world" where
  "process_line bs net line w =
     (let url = strip_line line;
          local_filename = path_join OUTPUT_DIRECTORY (basename url)
      in case download net MAX_RETRIES RETRY_DELAY url local_filename w of
           (False, w1) \<Rightarrow> (Inr (), append_item errors_file_path (Line (ErrorRow local_filename)) w1)
         | (True, w1) \<Rightarrow>
             (case convert_warc_to_text bs local_filename EXTRACTED_TEXT_DIRECTORY csv_file_path w1 of
                (Inl e, w2) \<Rightarrow> (Inl e, w2)
              | (Inr u, w2) \<Rightarrow> os_remove local_filename w2))"

fun main_loop :: "parser \<Rightarrow> network \<Rightarrow> string list \<Rightarrow> world \<Rightarrow> (error + unit) \<times> world" where
  "main_loop bs net [] w = (Inr (), w)"
| "main_loop bs net (line # lines) w =
     (case process_line bs net line w of
        (Inl e, w') \<Rightarrow> (Inl e, w')
      | (Inr u, w') \<Rightarrow> main_loop bs net lines w')"

text \<open>
  \<open>url_file\<close> is what line 147 finds: the lines of the list of sources, or \<open>None\<close> when
  the file cannot be opened. No path the run writes is the path of the list.
\<close>

definition main :: "parser \<Rightarrow> network \<Rightarrow> string list option \<Rightarrow> world \<Rightarrow> (error + unit) \<times> world" where
  "main bs net url_file w =
     (let w1 = append_item csv_file_path (Line (Header METRICS_FIELDNAMES)) (open_w csv_file_path w);
          w2 = append_item errors_file_path (Line (Header ERRORS_FIELDNAMES)) (open_w errors_file_path w1)
      in case url_file of
           None \<Rightarrow> (Inl FileNotFoundError, w2)
         | Some lines \<Rightarrow> main_loop bs net lines w2)"

section \<open>Notions of the specification\<close>

text \<open>
  A document has a character of the target script when one of its text nodes has one,
  at any depth and under any element.
\<close>

definition has_malayalam :: "soup \<Rightarrow> bool" where
  "has_malayalam sp = list_ex is_malayalam (concat (concat (map strings sp)))"

text \<open>
  The maximal runs of target-script characters of a text, in order of appearance, in the
  words of the specification: the text is a gap without such characters, or a gap, a
  non-empty run of such characters that ends at the end of the text or before another
  character, and a rest with its own maximal runs.
\<close>

inductive maximal_runs :: "ustring \<Rightarrow> ustring list \<Rightarrow> bool" where
  no_run: "list_all (\<lambda>c. \<not> is_malayalam c) gap \<Longrightarrow> maximal_runs gap []"
| run: "list_all (\<lambda>c. \<not> is_malayalam c) gap \<Longrightarrow> r \<noteq> [] \<Longrightarrow> list_all is_malayalam r \<Longrightarrow>
        (case rest of [] \<Rightarrow> True | c # _ \<Rightarrow> \<not> is_malayalam c) \<Longrightarrow> maximal_runs rest rs \<Longrightarrow>
        maximal_runs (gap @ r @ rest) (r # rs)"

text \<open>
  Every text node of a document with the names of the elements that enclose it, the
  innermost first.
\<close>

fun strings_within :: "string list \<Rightarrow> node \<Rightarrow> (string list \<times> ustring) list" where
  "strings_within anc (NavigableString s) = [(anc, s)]"
| "strings_within anc (Tag n cs) = concat (map (strings_within (n # anc)) cs)"

text \<open>
  The scan of an archive: the records \<open>ArchiveIterator\<close> yields before it ends or
  fails, and the text blocks the scan accepts, in order (lines 93, 102 and 103).
\<close>

fun is_record :: "item \<Rightarrow> bool" where
  "is_record (Rec r) = True"
| "is_record x = False"

fun records_read :: "item list \<Rightarrow> warc_record list" where
  "records_read [] = []"
| "records_read (Rec r # its) = r # records_read its"
| "records_read (x # its) = []"

definition accepts :: "parser \<Rightarrow> warc_record \<Rightarrow> ustring option" where
  "accepts bs r =
     (if rec_type r = ''response''
      then process_and_check_malayalam_text bs (payload r) DEFAULT_MIN_MALAYALAM_WORDS
      else None)"

definition accepted_texts :: "parser \<Rightarrow> item list \<Rightarrow> ustring list" where
  "accepted_texts bs items = List.map_filter (accepts bs) (records_read items)"

definition scan_error :: "item list \<Rightarrow> error option" where
  "scan_error items = (if list_all is_record items then None else Some ArchiveLoadFailed)"

text \<open>The events between two states of a run, and the transfer attempts among them.\<close>

definition events_between :: "world \<Rightarrow> world \<Rightarrow> event list" where
  "events_between w w' = drop (length (trace w)) (trace w')"

fun is_attempt :: "event \<Rightarrow> bool" where
  "is_attempt (Wget url dest tries wait) = True"
| "is_attempt (Sleep d) = False"

text \<open>
  Every attempt of a retry loop that starts in \<open>w\<close> fails: the \<open>k\<close>-th attempt is made
  after \<open>k\<close> failed attempts and \<open>k\<close> waits.
\<close>

definition all_attempts_fail :: "network \<Rightarrow> nat \<Rightarrow> string \<Rightarrow> world \<Rightarrow> bool" where
  "all_attempts_fail net max_retries url w =
     (\<forall>k < max_retries. \<not> fst (net (length (trace w) + 2 * k) url))"

section \<open>Example inputs\<close>

definition hello_doc :: soup where
  "hello_doc = [NavigableString (map of_char ''hello'')]"

definition mixed_doc :: soup where
  "mixed_doc =
     [Tag ''p'' [NavigableString [0x0D05, 0x0D06, 97, 0x0D07]],
      Tag ''script'' [NavigableString [0x0D08]],
      NavigableString [32, 0x0D09, 0x0D0A, 10]]"

section \<open>Helper for the scan, and example worlds\<close>

text \<open>Several items appended to a file at once; the file is not touched when there is none.\<close>

definition append_items :: "string \<Rightarrow> item list \<Rightarrow> world \<Rightarrow> world" where
  "append_items p xs w = (if xs = [] then w else w\<lparr>fs := (fs w)(p \<mapsto> file_content w p @ xs)\<rparr>)"

text \<open>
  Inputs for the examples: a document of fifty characters of the script, a parser that
  knows two payloads, two archives, two paths, two networks and a world with stale logs.
\<close>

definition ml_text :: ustring where
  "ml_text = replicate 50 0x0D05"

definition ml_doc :: soup where
  "ml_doc = [Tag ''html'' [Tag ''body'' [NavigableString ml_text]]]"

definition toy_parser :: parser where
  "toy_parser b =
     (if b = ''ml'' then Some ml_doc else if b = ''hello'' then Some hello_doc else None)"

definition archive_ml :: "item list" where
  "archive_ml =
     [Rec (WarcRecord ''request'' ''ml''), Rec (WarcRecord ''response'' ''hello''),
      Rec (WarcRecord ''response'' ''ml'')]"

definition archive_hello :: "item list" where
  "archive_hello = [Rec (WarcRecord ''response'' ''hello'')]"

definition good_path :: string where
  "good_path = ''Extracted_files/CC-20230921103711-00000.warc.gz''"

definition bad_path :: string where
  "bad_path = ''Extracted_files/index.html''"

definition world_of :: "string \<Rightarrow> item list \<Rightarrow> world" where
  "world_of p items = \<lparr>fs = [p \<mapsto> items], trace = []\<rparr>"

definition empty_world :: world where
  "empty_world = \<lparr>fs = Map.empty, trace = []\<rparr>"

definition net_down :: network where
  "net_down t url = (False, None)"

definition net_up :: network where
  "net_up t url = (True, Some archive_ml)"

definition failing_line :: string where
  "failing_line = ''  http://host/crawl/a.warc.gz'' @ [CHR 0x0A]"

definition stale_world :: world where
  "stale_world =
     \<lparr>fs = [csv_file_path \<mapsto> [Line (Header METRICS_FIELDNAMES), Line (MetricsRow ''old'' ''old'')],
             errors_file_path \<mapsto> [Line (ErrorRow ''old'')]],
      trace = []\<rparr>"

definition good_line :: string where
  "good_line = ''crawl-data/warc/CC-20230921103711-00000.warc.gz'' @ [CHR 0x0A]"

definition hello_line :: string where
  "hello_line = ''crawl-data/warc/CC-20230921103711-00007.warc.gz'' @ [CHR 0x0A]"

definition net_hello :: network where
  "net_hello t url = (True, Some archive_hello)"

section \<open>Lemmas on text and documents\<close>

lemma length_join:
  "xs \<noteq> [] \<Longrightarrow> length (join sep xs) = sum_list (map length xs) + (length xs - 1) * length sep"
  by (induction sep xs rule: join.induct) auto

lemma set_join: "set (join sep xs) \<subseteq> set sep \<union> \<Union> (set ` set xs)"
  by (induction sep xs rule: join.induct) auto

lemma set_strip: "set (strip s) \<subseteq> set s"
  by (auto simp: strip_def dest!: set_dropWhileD)

lemma findall_empty_iff: "findall t = [] \<longleftrightarrow> (\<forall>c \<in> set t. \<not> is_malayalam c)"
  by (induction t rule: findall.induct) auto

lemma strings_decompose:
  "set (concat (map strings (decompose names n))) \<subseteq> set (strings n)"
  by (induction names n rule: decompose.induct) auto

lemma strings_decompose_all:
  "set (concat (map strings (decompose_all names sp))) \<subseteq> set (concat (map strings sp))"
  unfolding decompose_all_def using strings_decompose by fastforce

lemma reduced_text_chars:
  assumes "c \<in> set (reduced_text sp)"
  shows "c = SPACE \<or> (\<exists>s \<in> set (concat (map strings sp)). c \<in> set s)"
proof -
  from assms set_join have "c = SPACE \<or> (\<exists>s \<in> set (stripped_strings (decompose_all [''style'', ''script''] sp)). c \<in> set s)"
    unfolding reduced_text_def by fastforce
  then show ?thesis
  proof
    assume "c = SPACE" then show ?thesis by simp
  next
    assume "\<exists>s \<in> set (stripped_strings (decompose_all [''style'', ''script''] sp)). c \<in> set s"
    then obtain s0 where s0: "s0 \<in> set (concat (map strings (decompose_all [''style'', ''script''] sp)))"
      and c: "c \<in> set (strip s0)"
      unfolding stripped_strings_def by auto
    from s0 strings_decompose_all have "s0 \<in> set (concat (map strings sp))" by blast
    moreover from c set_strip have "c \<in> set s0" by blast
    ultimately show ?thesis by blast
  qed
qed

lemma not_malayalam_SPACE: "\<not> is_malayalam SPACE"
  by (simp add: is_malayalam_def SPACE_def)

lemma no_malayalam_reduced:
  "\<not> has_malayalam sp \<Longrightarrow> findall (reduced_text sp) = []"
  unfolding findall_empty_iff has_malayalam_def list_ex_iff
  using reduced_text_chars not_malayalam_SPACE by fastforce

lemma maximal_runs_skip:
  assumes "maximal_runs t rs" and "\<not> is_malayalam c"
  shows "maximal_runs (c # t) rs"
  using assms
proof (cases rule: maximal_runs.cases)
  case no_run
  with assms(2) show ?thesis by (simp add: maximal_runs.no_run)
next
  case (run gap r rest rs')
  from run(3) assms(2) have "list_all (\<lambda>c. \<not> is_malayalam c) (c # gap)" by simp
  from maximal_runs.run [OF this run(4) run(5) run(6) run(7)] run(1,2)
  show ?thesis by simp
qed

lemma dropWhile_boundary:
  "case dropWhile P xs of [] \<Rightarrow> True | c # _ \<Rightarrow> \<not> P c"
  by (induction xs) auto

lemma findall_maximal_runs: "maximal_runs t (findall t)"
proof (induction t rule: findall.induct)
  case 1
  show ?case by (simp add: maximal_runs.no_run)
next
  case (2 c cs)
  show ?case
  proof (cases "is_malayalam c")
    case True
    have "maximal_runs ([] @ (c # takeWhile is_malayalam cs) @ dropWhile is_malayalam cs)
            ((c # takeWhile is_malayalam cs) # findall (dropWhile is_malayalam cs))"
    proof (rule maximal_runs.run)
      show "list_all is_malayalam (c # takeWhile is_malayalam cs)"
        using True by (auto simp: list_all_iff dest: set_takeWhileD)
      show "case dropWhile is_malayalam cs of [] \<Rightarrow> True | c # _ \<Rightarrow> \<not> is_malayalam c"
        by (rule dropWhile_boundary)
      show "maximal_runs (dropWhile is_malayalam cs) (findall (dropWhile is_malayalam cs))"
        using 2(1) True by simp
    qed simp_all
    with True show ?thesis by simp
  next
    case False
    with 2(2) maximal_runs_skip show ?thesis by simp
  qed
qed

lemma findall_skip_gap:
  "list_all (\<lambda>c. \<not> is_malayalam c) gap \<Longrightarrow> findall (gap @ t) = findall t"
  by (induction gap) auto

lemma findall_run:
  assumes "r \<noteq> []" and "list_all is_malayalam r"
    and "case rest of [] \<Rightarrow> True | c # _ \<Rightarrow> \<not> is_malayalam c"
  shows "findall (r @ rest) = r # findall rest"
proof -
  from assms(1) obtain c r' where r: "r = c # r'" by (cases r) auto
  with assms(2) have c: "is_malayalam c" and r': "\<forall>x \<in> set r'. is_malayalam x"
    by (auto simp: list_all_iff)
  from assms(3) have tw: "takeWhile is_malayalam rest = []" and dw: "dropWhile is_malayalam rest = rest"
    by (cases rest; simp)+
  from r' tw have "takeWhile is_malayalam (r' @ rest) = r'" by simp
  moreover from r' dw have "dropWhile is_malayalam (r' @ rest) = rest" by simp
  ultimately show ?thesis using c r by simp
qed

lemma maximal_runs_unique: "maximal_runs t rs \<Longrightarrow> rs = findall t"
proof (induction rule: maximal_runs.induct)
  case (no_run gap)
  then have "findall gap = []" by (simp add: findall_empty_iff list_all_iff)
  then show ?case by simp
next
  case (run gap r rest rs)
  then show ?case by (simp add: findall_skip_gap findall_run)
qed

lemma strings_within_ancestors:
  "(a, s) \<in> set (strings_within anc n) \<Longrightarrow> set anc \<subseteq> set a"
  by (induction anc n rule: strings_within.induct) auto

lemma strings_decompose_eq:
  "set anc \<inter> set names = {} \<Longrightarrow>
   concat (map strings (decompose names n)) =
     map snd (filter (\<lambda>(a, s). set a \<inter> set names = {}) (strings_within anc n))"
proof (induction anc n rule: strings_within.induct)
  case (1 anc s)
  then show ?case by simp
next
  case (2 anc n cs)
  show ?case
  proof (cases "n \<in> set names")
    case True
    have "filter (\<lambda>(a, s). set a \<inter> set names = {}) (strings_within anc (Tag n cs)) = []"
      using True strings_within_ancestors [of _ _ "n # anc"]
      by (fastforce simp: filter_empty_conv)
    with True show ?thesis by simp
  next
    case False
    with 2(2) have d: "set (n # anc) \<inter> set names = {}" by auto
    have "concat (map strings (concat (map (decompose names) cs))) =
          concat (map (\<lambda>c. map snd (filter (\<lambda>(a, s). set a \<inter> set names = {}) (strings_within (n # anc) c))) cs)"
      using 2(1) [OF _ d] by (induction cs) auto
    also have "\<dots> = map snd (filter (\<lambda>(a, s). set a \<inter> set names = {}) (concat (map (strings_within (n # anc)) cs)))"
      by (induction cs) auto
    finally show ?thesis using False by simp
  qed
qed

lemma strings_decompose_all_eq:
  "concat (map strings (decompose_all names sp)) =
     map snd (filter (\<lambda>(a, s). set a \<inter> set names = {}) (concat (map (strings_within []) sp)))"
  unfolding decompose_all_def
  by (induction sp) (auto simp: strings_decompose_eq [of "[]"])

lemma hello_doc_plain: "\<not> has_malayalam hello_doc"
  by (simp add: has_malayalam_def hello_doc_def is_malayalam_def)

lemma mixed_doc_text: "reduced_text mixed_doc = [0x0D05, 0x0D06, 97, 0x0D07, 32, 0x0D09, 0x0D0A]"
  by (simp add: mixed_doc_def reduced_text_def decompose_all_def stripped_strings_def strip_def
      isspace_def SPACE_def)

lemma mixed_doc_runs:
  "findall (reduced_text mixed_doc) = [[0x0D05, 0x0D06], [0x0D07], [0x0D09, 0x0D0A]]"
  by (simp add: mixed_doc_text is_malayalam_def)

section \<open>Lemmas on files, the scan and the driver\<close>

lemma file_content_append [simp]:
  "file_content (append_item p x w) q = (if q = p then file_content w p @ [x] else file_content w q)"
  by (simp add: append_item_def file_content_def)

lemma scan_step_no_token:
  "re_search p = None \<Longrightarrow> scan_step bs p d r (out, w) = (out, w)"
  by (simp add: scan_step_def split: option.splits)

lemma scan_step_rejected:
  "accepts bs r = None \<Longrightarrow> scan_step bs p d r (out, w) = (out, w)"
  by (simp add: scan_step_def accepts_def split: option.splits if_splits)

lemma scan_step_accepted:
  "accepts bs r = Some t \<Longrightarrow> re_search p = Some tok \<Longrightarrow>
   scan_step bs p d r (out, w) =
     (Some (''extracted_text_'' @ tok @ ''.txt'', path_join d (''extracted_text_'' @ tok @ ''.txt'')),
      append_item (path_join d (''extracted_text_'' @ tok @ ''.txt'')) (Chars t) w)"
  by (simp add: scan_step_def accepts_def Let_def split: option.splits if_splits)

lemma accepted_texts_simps [simp]:
  "accepted_texts bs [] = []"
  "accepted_texts bs (Rec r # its) =
     (case accepts bs r of None \<Rightarrow> accepted_texts bs its | Some t \<Rightarrow> t # accepted_texts bs its)"
  "accepted_texts bs (Chars t # its) = []"
  "accepted_texts bs (Line l # its) = []"
  by (simp_all add: accepted_texts_def split: option.splits)

lemma scan_error_simps [simp]:
  "scan_error [] = None"
  "scan_error (Rec r # its) = scan_error its"
  "scan_error (Chars t # its) = Some ArchiveLoadFailed"
  "scan_error (Line l # its) = Some ArchiveLoadFailed"
  by (simp_all add: scan_error_def)

lemma append_items_cons:
  "append_items p xs (append_item p x w) = append_items p (x # xs) w"
  by (simp add: append_items_def append_item_def file_content_def)

lemma scan_loop_no_token:
  "re_search p = None \<Longrightarrow> scan_loop bs p d items (out, w) = (scan_error items, out, w)"
  by (induction bs p d items "(out, w)" rule: scan_loop.induct) (simp_all add: scan_step_no_token)

lemma scan_loop_token:
  "re_search p = Some tok \<Longrightarrow>
   scan_loop bs p d items (out, w) =
     (scan_error items,
      (if accepted_texts bs items = [] then out
       else Some (''extracted_text_'' @ tok @ ''.txt'', path_join d (''extracted_text_'' @ tok @ ''.txt''))),
      append_items (path_join d (''extracted_text_'' @ tok @ ''.txt'')) (map Chars (accepted_texts bs items)) w)"
proof (induction items arbitrary: out w)
  case Nil
  then show ?case by (simp add: append_items_def)
next
  case (Cons x items)
  show ?case
  proof (cases x)
    case (Rec r)
    show ?thesis
    proof (cases "accepts bs r")
      case None
      with Rec Cons show ?thesis by (simp add: scan_step_rejected)
    next
      case (Some t)
      with Rec Cons show ?thesis
        by (simp add: scan_step_accepted append_items_cons)
    qed
  next
    case (Chars t)
    then show ?thesis by (simp add: append_items_def)
  next
    case (Line l)
    then show ?thesis by (simp add: append_items_def)
  qed
qed

lemma convert_no_accepted:
  assumes "fs w p = Some items" and "accepted_texts bs items = []"
  shows "convert_warc_to_text bs p d csv w =
           (Inl (case scan_error items of None \<Rightarrow> UnboundLocalError | Some e \<Rightarrow> e), w)"
proof (cases "re_search p")
  case None
  with assms show ?thesis
    by (simp add: convert_warc_to_text_def scan_loop_no_token split: option.splits)
next
  case (Some tok)
  with assms show ?thesis
    by (simp add: convert_warc_to_text_def scan_loop_token append_items_def split: option.splits)
qed

lemma convert_no_token:
  assumes "fs w p = Some items" and "re_search p = None"
  shows "convert_warc_to_text bs p d csv w =
           (Inl (case scan_error items of None \<Rightarrow> UnboundLocalError | Some e \<Rightarrow> e), w)"
  using assms by (simp add: convert_warc_to_text_def scan_loop_no_token split: option.splits)

lemma convert_token:
  assumes "fs w p = Some items" and "re_search p = Some tok" and "accepted_texts bs items \<noteq> []"
  shows "convert_warc_to_text bs p d csv w =
           (case scan_error items of
              Some e \<Rightarrow> (Inl e, append_items (path_join d (''extracted_text_'' @ tok @ ''.txt''))
                                   (map Chars (accepted_texts bs items)) w)
            | None \<Rightarrow> (Inr (),
                append_item csv (Line (MetricsRow (''extracted_text_'' @ tok @ ''.txt'')
                                   (path_join d (''extracted_text_'' @ tok @ ''.txt''))))
                  (append_items (path_join d (''extracted_text_'' @ tok @ ''.txt''))
                                   (map Chars (accepted_texts bs items)) w)))"
  using assms by (simp add: convert_warc_to_text_def scan_loop_token split: option.splits)

lemma file_content_append_items:
  "file_content (append_items p xs w) q = (if q = p then file_content w p @ xs else file_content w q)"
  by (simp add: append_items_def file_content_def)

lemma take_drop_split: "take n (drop m s) @ drop (m + n) s = drop m s"
  by (metis append_take_drop_id drop_drop add.commute)

lemma match_here_shape:
  assumes "match_here s = Some g"
  shows "s = g @ ''.warc.gz'' @ drop 28 s \<and> at_end (drop 28 s) \<and> length g = 20 \<and>
         list_all isdigit (take 14 g) \<and> g ! 14 = CHR ''-'' \<and> list_all isdigit (drop 15 g)"
proof -
  from assms have g: "g = take 20 s" and ts: "length (take 14 s) = 14" "list_all isdigit (take 14 s)"
    and dash: "take 1 (drop 14 s) = ''-''" and sq: "length (take 5 (drop 15 s)) = 5" "list_all isdigit (take 5 (drop 15 s))"
    and suf: "take 8 (drop 20 s) = ''.warc.gz''" and e: "at_end (drop 28 s)"
    by (auto simp: match_here_def Let_def split: if_splits)
  from sq(1) have len: "20 \<le> length s" by simp
  have "s = take 20 s @ drop 20 s" by simp
  also have "drop 20 s = take 8 (drop 20 s) @ drop 28 s"
    using take_drop_split [of 8 20 s] by simp
  finally have s: "s = g @ ''.warc.gz'' @ drop 28 s" using g suf by simp
  from len g have lg: "length g = 20" by simp
  have t14: "take 14 g = take 14 s" using g by (simp add: min_def)
  have d15: "drop 15 g = take 5 (drop 15 s)" using g by (simp add: drop_take)
  from dash have "drop 14 s ! 0 = CHR ''-''" by (metis nth_Cons_0 nth_take zero_less_one)
  with len g have "g ! 14 = CHR ''-''" by simp
  with s e lg t14 d15 ts sq show ?thesis by simp
qed

lemma re_search_shape:
  "re_search p = Some g \<Longrightarrow>
   \<exists>pre rest. p = pre @ g @ ''.warc.gz'' @ rest \<and> at_end rest \<and> length g = 20 \<and>
     list_all isdigit (take 14 g) \<and> g ! 14 = CHR ''-'' \<and> list_all isdigit (drop 15 g)"
proof (induction p)
  case Nil
  then show ?case by (simp add: match_here_def)
next
  case (Cons c cs)
  show ?case
  proof (cases "match_here (c # cs)")
    case None
    with Cons.prems have "re_search cs = Some g" by simp
    from Cons.IH [OF this] obtain pre rest where
      "cs = pre @ g @ ''.warc.gz'' @ rest" "at_end rest" "length g = 20"
      "list_all isdigit (take 14 g)" "g ! 14 = CHR ''-''" "list_all isdigit (drop 15 g)" by blast
    then have "c # cs = (c # pre) @ g @ ''.warc.gz'' @ rest" by simp
    with \<open>at_end rest\<close> \<open>length g = 20\<close> \<open>list_all isdigit (take 14 g)\<close> \<open>g ! 14 = CHR ''-''\<close>
      \<open>list_all isdigit (drop 15 g)\<close>
    show ?thesis by blast
  next
    case (Some g')
    with Cons.prems have "g' = g" by simp
    with Some match_here_shape [of "c # cs" g]
    have "c # cs = [] @ g @ ''.warc.gz'' @ drop 28 (c # cs)" and "at_end (drop 28 (c # cs))"
      and "length g = 20" "list_all isdigit (take 14 g)" "g ! 14 = CHR ''-''" "list_all isdigit (drop 15 g)"
      by simp_all
    then show ?thesis by blast
  qed
qed

lemma output_path_not_archive:
  assumes "re_search p = Some g"
  shows "path_join d (''extracted_text_'' @ g @ ''.txt'') \<noteq> p"
proof -
  from re_search_shape [OF assms] obtain pre rest where p: "p = pre @ g @ ''.warc.gz'' @ rest"
    and e: "at_end rest" by blast
  have l1: "last (path_join d (''extracted_text_'' @ g @ ''.txt'')) = CHR ''t''"
    by (simp add: path_join_def)
  from p e have "last p = CHR ''z'' \<or> last p = CHR 0x0A"
    by (auto simp: at_end_def)
  with l1 show ?thesis by auto
qed

lemma wget_trace: "trace (snd (wget net url dest tries wait w)) = trace w @ [Wget url dest tries wait]"
  by (simp add: wget_def split: prod.splits)

lemma wget_fst: "fst (wget net url dest tries wait w) = fst (net (length (trace w)) url)"
  by (simp add: wget_def split: prod.splits)

lemma wget_fs_other: "p \<noteq> dest \<Longrightarrow> fs (snd (wget net url dest tries wait w)) p = fs w p"
  by (simp add: wget_def split: prod.splits)

lemma retry_loop_trace:
  "\<exists>evs. trace (snd (retry_loop net n delay k url dest w)) = trace w @ evs \<and>
         length (filter is_attempt evs) \<le> k"
proof (induction k arbitrary: w)
  case 0
  show ?case by simp
next
  case (Suc k)
  obtain ok w1 where w1: "wget net url dest n delay w = (ok, w1)" by (cases "wget net url dest n delay w")
  with wget_trace [of net url dest n delay w] have t1: "trace w1 = trace w @ [Wget url dest n delay]" by simp
  show ?case
  proof (cases ok)
    case True
    with w1 t1 show ?thesis by simp
  next
    case False
    from Suc.IH [of "sleep delay w1"] obtain evs where
      e: "trace (snd (retry_loop net n delay k url dest (sleep delay w1))) = trace (sleep delay w1) @ evs"
      and l: "length (filter is_attempt evs) \<le> k" by blast
    from e t1 have "trace (snd (retry_loop net n delay k url dest (sleep delay w1))) =
        trace w @ (Wget url dest n delay # Sleep delay # evs)" by (simp add: sleep_def)
    moreover from l have "length (filter is_attempt (Wget url dest n delay # Sleep delay # evs)) \<le> Suc k" by simp
    moreover from w1 False have "retry_loop net n delay (Suc k) url dest w =
        retry_loop net n delay k url dest (sleep delay w1)" by simp
    ultimately show ?thesis by (metis (full_types))
  qed
qed

lemma retry_loop_fs_other:
  "p \<noteq> dest \<Longrightarrow> fs (snd (retry_loop net n delay k url dest w)) p = fs w p"
proof (induction k arbitrary: w)
  case 0
  show ?case by simp
next
  case (Suc k)
  obtain ok w1 where w1: "wget net url dest n delay w = (ok, w1)" by (cases "wget net url dest n delay w")
  with wget_fs_other [OF Suc.prems, of net url n delay w] have f1: "fs w1 p = fs w p" by simp
  show ?case
  proof (cases ok)
    case True
    with w1 f1 show ?thesis by simp
  next
    case False
    with w1 f1 Suc.IH [OF Suc.prems, of "sleep delay w1"] show ?thesis by (simp add: sleep_def)
  qed
qed

lemma retry_loop_all_fail:
  "(\<forall>j<k. \<not> fst (net (length (trace w) + 2 * j) url)) \<Longrightarrow>
   fst (retry_loop net n delay k url dest w) = False \<and>
   trace (snd (retry_loop net n delay k url dest w)) =
     trace w @ concat (replicate k [Wget url dest n delay, Sleep delay])"
proof (induction k arbitrary: w)
  case 0
  show ?case by simp
next
  case (Suc k)
  obtain ok w1 where w1: "wget net url dest n delay w = (ok, w1)" by (cases "wget net url dest n delay w")
  with wget_trace [of net url dest n delay w] have t1: "trace w1 = trace w @ [Wget url dest n delay]" by simp
  from Suc.prems have "\<not> fst (net (length (trace w)) url)" by force
  with w1 wget_fst [of net url dest n delay w] have ok: "ok = False" by simp
  have "\<forall>j<k. \<not> fst (net (length (trace (sleep delay w1)) + 2 * j) url)"
  proof (intro allI impI)
    fix j assume "j < k"
    with Suc.prems have "\<not> fst (net (length (trace w) + 2 * Suc j) url)" by (meson Suc_less_eq)
    with t1 show "\<not> fst (net (length (trace (sleep delay w1)) + 2 * j) url)" by (simp add: sleep_def)
  qed
  from Suc.IH [OF this] w1 ok t1 show ?case by (simp add: sleep_def)
qed

lemma basename_no_slash: "CHR ''/'' \<notin> set (basename p)"
  by (auto simp: basename_def dest: set_takeWhileD)

lemma local_filename_eq: "path_join OUTPUT_DIRECTORY (basename u) = OUTPUT_DIRECTORY @ basename u"
proof -
  have "take 1 (basename u) \<noteq> ''/''"
    using basename_no_slash [of u] by (cases "basename u") auto
  then show ?thesis by (simp add: path_join_def OUTPUT_DIRECTORY_def)
qed

lemma csv_file_path_eq: "csv_file_path = ''Extracted Texts/extraction_info.csv''"
  by (simp add: csv_file_path_def path_join_def EXTRACTED_TEXT_DIRECTORY_def)

lemma errors_file_path_eq: "errors_file_path = ''Extracted Texts/error_log_info.csv''"
  by (simp add: errors_file_path_def path_join_def EXTRACTED_TEXT_DIRECTORY_def)

lemma local_not_log:
  "path_join OUTPUT_DIRECTORY (basename u) \<noteq> csv_file_path"
  "path_join OUTPUT_DIRECTORY (basename u) \<noteq> errors_file_path"
  using local_filename_eq [of u]
  by (simp_all add: csv_file_path_eq errors_file_path_eq OUTPUT_DIRECTORY_def)

lemma logs_differ: "csv_file_path \<noteq> errors_file_path"
  by (simp add: csv_file_path_eq errors_file_path_eq)

lemma output_not_log:
  "path_join EXTRACTED_TEXT_DIRECTORY (''extracted_text_'' @ tok @ ''.txt'') \<noteq> csv_file_path"
  "path_join EXTRACTED_TEXT_DIRECTORY (''extracted_text_'' @ tok @ ''.txt'') \<noteq> errors_file_path"
  by (simp_all add: path_join_def csv_file_path_eq errors_file_path_eq EXTRACTED_TEXT_DIRECTORY_def)

lemma download_all_fail:
  assumes "all_attempts_fail net n url w"
  shows "fst (download net n delay url dest w) = False"
    and "trace (snd (download net n delay url dest w)) =
           trace w @ concat (replicate n [Wget url dest n delay, Sleep delay])"
  using retry_loop_all_fail [of n net w url n delay dest] assms
  by (simp_all add: download_def all_attempts_fail_def)

lemma process_line_all_fail:
  assumes "all_attempts_fail net MAX_RETRIES (strip_line line) w"
  shows "process_line bs net line w =
           (Inr (), append_item errors_file_path
              (Line (ErrorRow (path_join OUTPUT_DIRECTORY (basename (strip_line line)))))
              (snd (download net MAX_RETRIES RETRY_DELAY (strip_line line)
                      (path_join OUTPUT_DIRECTORY (basename (strip_line line))) w)))"
proof -
  obtain ok w1 where d: "download net MAX_RETRIES RETRY_DELAY (strip_line line)
      (path_join OUTPUT_DIRECTORY (basename (strip_line line))) w = (ok, w1)"
    by (cases "download net MAX_RETRIES RETRY_DELAY (strip_line line)
      (path_join OUTPUT_DIRECTORY (basename (strip_line line))) w")
  with download_all_fail(1) [OF assms, of RETRY_DELAY "path_join OUTPUT_DIRECTORY (basename (strip_line line))"]
  have "ok = False" by simp
  with d show ?thesis by (simp add: process_line_def Let_def)
qed

lemma download_fs_other:
  "p \<noteq> dest \<Longrightarrow> fs (snd (download net n delay url dest w)) p = fs w p"
  by (simp add: download_def retry_loop_fs_other)

lemma fs_append_item:
  "fs (append_item p x w) q = (if q = p then Some (file_content w p @ [x]) else fs w q)"
  by (simp add: append_item_def)

lemma file_content_cong: "fs w p = fs w' p \<Longrightarrow> file_content w p = file_content w' p"
  by (simp add: file_content_def)

lemma fs_append_items:
  "fs (append_items p xs w) q =
     (if xs \<noteq> [] \<and> q = p then Some (file_content w p @ xs) else fs w q)"
  by (simp add: append_items_def)

lemma strip_keeps:
  assumes "s \<noteq> []" and "\<not> isspace (hd s)" and "\<not> isspace (last s)"
  shows "strip s = s"
proof -
  from assms(1,2) have 1: "dropWhile isspace s = s" by (cases s) auto
  from assms(1,3) have "dropWhile isspace (rev s) = rev s"
    by (cases "rev s") (auto simp: hd_rev [symmetric])
  with 1 show ?thesis by (simp add: strip_def)
qed

lemma findall_single_run:
  assumes "s \<noteq> []" and "list_all is_malayalam s"
  shows "findall s = [s]"
  using findall_run [of s "[]"] assms by simp

lemma ml_text_props: "ml_text \<noteq> []" "list_all is_malayalam ml_text" "length ml_text = 50"
  "hd ml_text = 0x0D05" "last ml_text = 0x0D05"
  by (simp_all add: ml_text_def list_all_iff is_malayalam_def)

lemma ml_doc_accepted:
  "process_and_check_malayalam_text toy_parser ''ml'' DEFAULT_MIN_MALAYALAM_WORDS = Some ml_text"
proof -
  have "strip ml_text = ml_text"
    by (rule strip_keeps) (simp_all add: ml_text_props isspace_def)
  then have "reduced_text ml_doc = ml_text"
    using ml_text_props(1)
    by (simp add: reduced_text_def ml_doc_def decompose_all_def stripped_strings_def)
  moreover have "findall ml_text = [ml_text]"
    by (rule findall_single_run) (simp_all add: ml_text_props)
  ultimately show ?thesis
    by (simp add: process_and_check_malayalam_text_def toy_parser_def ml_text_props
        DEFAULT_MIN_MALAYALAM_WORDS_def)
qed

lemma hello_doc_rejected:
  "process_and_check_malayalam_text toy_parser ''hello'' DEFAULT_MIN_MALAYALAM_WORDS = None"
  using hello_doc_plain
  by (simp add: process_and_check_malayalam_text_def toy_parser_def no_malayalam_reduced
      DEFAULT_MIN_MALAYALAM_WORDS_def)

lemma archive_hello_accepted: "accepted_texts toy_parser archive_hello = []"
  by (simp add: archive_hello_def accepts_def hello_doc_rejected)

lemma archive_ml_accepted: "accepted_texts toy_parser archive_ml = [ml_text]"
  by (simp add: archive_ml_def accepts_def hello_doc_rejected ml_doc_accepted)

lemma good_path_token: "re_search good_path = Some ''20230921103711-00000''"
  by (simp add: good_path_def match_here_def isdigit_def at_end_def)

lemma bad_path_no_token: "re_search bad_path = None"
  by (simp add: bad_path_def match_here_def isdigit_def at_end_def)

lemma index_line: "strip_line ''http://host/index.html'' = ''http://host/index.html''"
  "basename ''http://host/index.html'' = ''index.html''"
  by (simp_all add: strip_line_def basename_def isspace_def)

lemma download_up:
  "download net_up MAX_RETRIES RETRY_DELAY ''http://host/index.html'' bad_path empty_world =
     (True, \<lparr>fs = [bad_path \<mapsto> archive_ml],
             trace = [Wget ''http://host/index.html'' bad_path 20 10]\<rparr>)"
  by (simp add: download_def MAX_RETRIES_def RETRY_DELAY_def eval_nat_numeral wget_def net_up_def
      empty_world_def)

lemma failing_line_url:
  "strip_line failing_line = ''http://host/crawl/a.warc.gz''"
  "basename ''http://host/crawl/a.warc.gz'' = ''a.warc.gz''"
  by (simp_all add: failing_line_def strip_line_def basename_def isspace_def)

lemma net_down_fails: "all_attempts_fail net_down n url w"
  by (simp add: all_attempts_fail_def net_down_def)

lemma match_here_needs_end: "\<not> at_end (drop 28 s) \<Longrightarrow> match_here s = None"
  by (simp add: match_here_def Let_def)

lemma match_here_exact:
  assumes "length g = 20" and "list_all isdigit (take 14 g)" and "g ! 14 = CHR ''-''"
    and "list_all isdigit (drop 15 g)" and "at_end rest"
  shows "match_here (g @ ''.warc.gz'' @ rest) = Some g"
proof -
  have "drop 14 g = g ! 14 # drop (Suc 14) g"
    using Cons_nth_drop_Suc [of 14 g] assms(1) by simp
  then have d: "take 1 (drop 14 g) = ''-''" using assms(3) by simp
  have 1: "take 14 (g @ ''.warc.gz'' @ rest) = take 14 g" using assms(1) by simp
  have 2: "take 1 (drop 14 (g @ ''.warc.gz'' @ rest)) = ''-''" using assms(1) d by simp
  have 3: "take 5 (drop 15 (g @ ''.warc.gz'' @ rest)) = drop 15 g" using assms(1) by simp
  have 4: "take 8 (drop 20 (g @ ''.warc.gz'' @ rest)) = ''.warc.gz''" using assms(1) by simp
  have 5: "drop 28 (g @ ''.warc.gz'' @ rest) = rest" using assms(1) by simp
  have 6: "take 20 (g @ ''.warc.gz'' @ rest) = g" using assms(1) by simp
  show ?thesis
    unfolding match_here_def Let_def 1 2 3 4 5 6
    using assms by simp
qed

lemma no_earlier_match:
  assumes "length g = 20" and "at_end rest"
  shows "match_here (c # pre @ g @ ''.warc.gz'' @ rest) = None"
proof (rule match_here_needs_end)
  let ?s = "c # pre @ g @ ''.warc.gz'' @ rest"
  show "\<not> at_end (drop 28 ?s)"
  proof (cases "pre = [] \<and> rest = []")
    case True
    with assms(1) have "drop 28 ?s = ''z''" by simp
    then show ?thesis by (simp add: at_end_def)
  next
    case False
    have "length (drop 28 ?s) = Suc (length pre + length rest)"
      using assms(1) by simp
    with False have "2 \<le> length (drop 28 ?s)"
      by (cases pre; cases rest) simp_all
    moreover have "length x \<le> 1" if "at_end x" for x
      using that by (auto simp: at_end_def)
    ultimately show ?thesis by fastforce

  qed
qed

lemma re_search_complete:
  assumes "length g = 20" and "list_all isdigit (take 14 g)" and "g ! 14 = CHR ''-''"
    and "list_all isdigit (drop 15 g)" and "at_end rest"
  shows "re_search (pre @ g @ ''.warc.gz'' @ rest) = Some g"
proof (induction pre)
  case Nil
  from assms(1) obtain c cs where g: "g = c # cs" by (cases g) auto
  from match_here_exact [OF assms] have "match_here ((c # cs) @ ''.warc.gz'' @ rest) = Some g"
    using g by simp
  then show ?case using g by simp
next
  case (Cons c pre)
  from no_earlier_match [OF assms(1,5), of c pre] Cons.IH show ?case by simp
qed

section \<open>Two runs from end to end\<close>

text \<open>
  A run over one source whose archive holds a page of fifty characters of the script:
  one output file with that text, one metrics row after the header, the stale rows gone,
  the archive removed. And a run whose first archive holds only a page without such
  characters: the exception of line 117 ends the run at that entry.
\<close>

lemma good_line_local:
  "strip_line good_line = ''crawl-data/warc/CC-20230921103711-00000.warc.gz''"
  "path_join OUTPUT_DIRECTORY (basename ''crawl-data/warc/CC-20230921103711-00000.warc.gz'') = good_path"
  by (simp_all add: good_line_def strip_line_def basename_def isspace_def path_join_def
      OUTPUT_DIRECTORY_def good_path_def)

lemma scenario_A:
  "fst (main toy_parser net_up (Some [good_line]) stale_world) = Inr () \<and>
   fs (snd (main toy_parser net_up (Some [good_line]) stale_world))
      ''Extracted Texts/extracted_text_20230921103711-00000.txt'' = Some [Chars ml_text] \<and>
   fs (snd (main toy_parser net_up (Some [good_line]) stale_world)) csv_file_path =
      Some [Line (Header METRICS_FIELDNAMES),
            Line (MetricsRow ''extracted_text_20230921103711-00000.txt''
                    ''Extracted Texts/extracted_text_20230921103711-00000.txt'')] \<and>
   fs (snd (main toy_parser net_up (Some [good_line]) stale_world)) errors_file_path =
      Some [Line (Header ERRORS_FIELDNAMES)] \<and>
   fs (snd (main toy_parser net_up (Some [good_line]) stale_world)) good_path = None"
proof -
  let ?w0 = "append_item errors_file_path (Line (Header ERRORS_FIELDNAMES)) (open_w errors_file_path
              (append_item csv_file_path (Line (Header METRICS_FIELDNAMES)) (open_w csv_file_path stale_world)))"
  let ?url = "''crawl-data/warc/CC-20230921103711-00000.warc.gz''"
  let ?out = "''Extracted Texts/extracted_text_20230921103711-00000.txt''"
  have m: "main toy_parser net_up (Some [good_line]) stale_world = main_loop toy_parser net_up [good_line] ?w0"
    by (simp add: main_def Let_def)
  obtain w1 where d: "download net_up MAX_RETRIES RETRY_DELAY ?url good_path ?w0 = (True, w1)"
    and w1: "w1 = ?w0\<lparr>fs := (fs ?w0)(good_path \<mapsto> archive_ml),
                      trace := trace ?w0 @ [Wget ?url good_path MAX_RETRIES RETRY_DELAY]\<rparr>"
    by (simp add: download_def MAX_RETRIES_def eval_nat_numeral wget_def net_up_def)
  have f1: "fs w1 good_path = Some archive_ml" by (simp add: w1)
  have n: "accepted_texts toy_parser archive_ml \<noteq> []" by (simp add: archive_ml_accepted)
  have o: "path_join EXTRACTED_TEXT_DIRECTORY ''extracted_text_20230921103711-00000.txt'' = ?out"
    by (simp add: path_join_def EXTRACTED_TEXT_DIRECTORY_def)
  have s: "scan_error archive_ml = None" by (simp add: archive_ml_def)
  let ?w2 = "append_item csv_file_path
      (Line (MetricsRow ''extracted_text_20230921103711-00000.txt'' ?out))
      (append_items ?out [Chars ml_text] w1)"
  have c: "convert_warc_to_text toy_parser good_path EXTRACTED_TEXT_DIRECTORY csv_file_path w1 = (Inr (), ?w2)"
    using convert_token [OF f1 good_path_token n, of EXTRACTED_TEXT_DIRECTORY csv_file_path]
    by (simp add: s o archive_ml_accepted)
  have g: "good_path \<noteq> csv_file_path" "good_path \<noteq> errors_file_path" "good_path \<noteq> ?out"
    "?out \<noteq> csv_file_path" "?out \<noteq> errors_file_path"
    by (simp_all add: good_path_def csv_file_path_eq errors_file_path_eq)
  have f2: "fs ?w2 good_path \<noteq> None"
    using g f1 by (simp add: fs_append_item fs_append_items)
  have p: "process_line toy_parser net_up good_line ?w0 =
      (Inr (), ?w2\<lparr>fs := (fs ?w2)(good_path := None)\<rparr>)"
    using d c f2 by (simp add: process_line_def Let_def good_line_local os_remove_def)
  have r: "main toy_parser net_up (Some [good_line]) stale_world =
      (Inr (), ?w2\<lparr>fs := (fs ?w2)(good_path := None)\<rparr>)"
    by (simp add: m p)
  have e0: "file_content w1 ?out = []" "file_content w1 csv_file_path = [Line (Header METRICS_FIELDNAMES)]"
    "fs w1 errors_file_path = Some [Line (Header ERRORS_FIELDNAMES)]"
    using g logs_differ
    by (simp_all add: w1 file_content_def append_item_def open_w_def stale_world_def)
  show ?thesis
    unfolding r using g logs_differ e0
    by (simp add: fs_append_item fs_append_items file_content_append_items)
qed

lemma hello_line_local:
  "path_join OUTPUT_DIRECTORY (basename (strip_line hello_line)) =
     ''Extracted_files/CC-20230921103711-00007.warc.gz''"
  by (simp add: hello_line_def strip_line_def basename_def isspace_def path_join_def
      OUTPUT_DIRECTORY_def)

lemma scenario_B_raises:
  "fst (main toy_parser net_hello (Some [hello_line, good_line]) empty_world) = Inl UnboundLocalError"
proof -
  let ?w0 = "append_item errors_file_path (Line (Header ERRORS_FIELDNAMES)) (open_w errors_file_path
              (append_item csv_file_path (Line (Header METRICS_FIELDNAMES)) (open_w csv_file_path empty_world)))"
  let ?local = "''Extracted_files/CC-20230921103711-00007.warc.gz''"
  obtain w1 where d: "download net_hello MAX_RETRIES RETRY_DELAY (strip_line hello_line) ?local ?w0 = (True, w1)"
    and w1: "fs w1 ?local = Some archive_hello"
    by (simp add: download_def MAX_RETRIES_def eval_nat_numeral wget_def net_hello_def)
  have s: "scan_error archive_hello = None" by (simp add: archive_hello_def)
  have c: "convert_warc_to_text toy_parser ?local EXTRACTED_TEXT_DIRECTORY csv_file_path w1 =
      (Inl UnboundLocalError, w1)"
    using convert_no_accepted [OF w1 archive_hello_accepted] by (simp add: s)
  have "process_line toy_parser net_hello hello_line ?w0 = (Inl UnboundLocalError, w1)"
    using d c by (simp add: process_line_def Let_def hello_line_local)
  then show ?thesis by (simp add: main_def Let_def)
qed

section \<open>Claims on process_and_check_malayalam_text\<close>

text \<open>
  Claim C3, as amended. When the parsed document has no character in U+0D00 to U+0D7F
  (or the parse fails) and the threshold is at least 1,
  \<open>process_and_check_malayalam_text\<close> returns \<open>None\<close>. The claim says so for every
  threshold; with a threshold of 0 or less the empty text passes the comparison of line
  74 and the function returns the empty string, as the counterexample shows.
\<close>

theorem no_script_chars_gives_none:
  assumes "\<And>sp. BeautifulSoup html_content = Some sp \<Longrightarrow> \<not> has_malayalam sp"
    and "1 \<le> min_malayalam_words"
  shows "process_and_check_malayalam_text BeautifulSoup html_content min_malayalam_words = None"
proof (cases "BeautifulSoup html_content")
  case None
  then show ?thesis by (simp add: process_and_check_malayalam_text_def)
next
  case (Some sp)
  with assms(1) have "findall (reduced_text sp) = []" by (simp add: no_malayalam_reduced)
  with Some assms(2) show ?thesis by (simp add: process_and_check_malayalam_text_def)
qed

theorem no_script_chars_gives_none_witness:
  "\<not> has_malayalam hello_doc \<and>
   process_and_check_malayalam_text (\<lambda>b. Some hello_doc) ''<p>hello</p>'' 1 = None"
proof -
  have "process_and_check_malayalam_text (\<lambda>b. Some hello_doc) ''<p>hello</p>'' 1 = None"
    by (rule no_script_chars_gives_none) (use hello_doc_plain in simp_all)
  with hello_doc_plain show ?thesis by simp
qed

theorem no_script_chars_counterexample:
  "\<not> has_malayalam hello_doc \<and>
   process_and_check_malayalam_text (\<lambda>b. Some hello_doc) ''<p>hello</p>'' 0 = Some []"
  by (simp add: hello_doc_plain process_and_check_malayalam_text_def no_malayalam_reduced)

text \<open>
  Claim C4. The input of the filter is the text that reaches the regular expression of
  line 69. When the parse succeeds, that text has exactly one list of maximal runs of
  target-script characters in order of appearance, and the function returns these runs
  joined by single spaces when that string has at least \<open>min_malayalam_words\<close>
  characters, and \<open>None\<close> otherwise.
\<close>

theorem filter_returns_joined_maximal_runs:
  assumes "BeautifulSoup html_content = Some sp"
  shows "\<exists>runs. maximal_runs (reduced_text sp) runs \<and>
           (\<forall>rs. maximal_runs (reduced_text sp) rs \<longrightarrow> rs = runs) \<and>
           process_and_check_malayalam_text BeautifulSoup html_content min_malayalam_words =
             (if min_malayalam_words \<le> int (length (join [SPACE] runs))
              then Some (join [SPACE] runs) else None)"
proof (intro exI conjI allI impI)
  show "maximal_runs (reduced_text sp) (findall (reduced_text sp))"
    by (rule findall_maximal_runs)
next
  fix rs assume "maximal_runs (reduced_text sp) rs"
  then show "rs = findall (reduced_text sp)" by (rule maximal_runs_unique)
next
  from assms
  show "process_and_check_malayalam_text BeautifulSoup html_content min_malayalam_words =
          (if min_malayalam_words \<le> int (length (join [SPACE] (findall (reduced_text sp))))
           then Some (join [SPACE] (findall (reduced_text sp))) else None)"
    by (simp add: process_and_check_malayalam_text_def)
qed

theorem filter_returns_joined_maximal_runs_witness:
  "maximal_runs (reduced_text mixed_doc) [[0x0D05, 0x0D06], [0x0D07], [0x0D09, 0x0D0A]] \<and>
   process_and_check_malayalam_text (\<lambda>b. Some mixed_doc) ''x'' 6 =
     Some [0x0D05, 0x0D06, 32, 0x0D07, 32, 0x0D09, 0x0D0A] \<and>
   process_and_check_malayalam_text (\<lambda>b. Some mixed_doc) ''x'' 8 = None"
proof -
  have m: "maximal_runs (reduced_text mixed_doc) [[0x0D05, 0x0D06], [0x0D07], [0x0D09, 0x0D0A]]"
    using findall_maximal_runs [of "reduced_text mixed_doc"] by (simp only: mixed_doc_runs)
  have p: "(\<lambda>b::string. Some mixed_doc) ''x'' = Some mixed_doc" by simp
  have r: "process_and_check_malayalam_text (\<lambda>b. Some mixed_doc) ''x'' k =
      (if k \<le> int (length (join [SPACE] [[0x0D05, 0x0D06], [0x0D07], [0x0D09, 0x0D0A]]))
       then Some (join [SPACE] [[0x0D05, 0x0D06], [0x0D07], [0x0D09, 0x0D0A]]) else None)" for k
  proof -
    from filter_returns_joined_maximal_runs [of "\<lambda>b. Some mixed_doc" "''x''" mixed_doc k, OF p]
    obtain runs where u: "\<forall>rs. maximal_runs (reduced_text mixed_doc) rs \<longrightarrow> rs = runs"
      and v: "process_and_check_malayalam_text (\<lambda>b. Some mixed_doc) ''x'' k =
        (if k \<le> int (length (join [SPACE] runs)) then Some (join [SPACE] runs) else None)"
      by blast
    from u m have "runs = [[0x0D05, 0x0D06], [0x0D07], [0x0D09, 0x0D0A]]" by blast
    with v show ?thesis by simp
  qed
  from m r [of 6] r [of 8] show ?thesis by (simp add: SPACE_def)
qed

text \<open>
  Claim C6. The text produced for filtering is made of the text nodes that no
  \<open>style\<close> and no \<open>script\<close> element encloses, and of nothing else: each of them
  stripped, the empty ones dropped, in document order, joined by single spaces. The
  document is the tree the parser built.
\<close>

theorem style_and_script_text_never_reaches_filter:
  "reduced_text sp =
     join [SPACE] (filter (\<lambda>s. s \<noteq> [])
       (map (strip \<circ> snd)
         (filter (\<lambda>(ancestors, s). ''style'' \<notin> set ancestors \<and> ''script'' \<notin> set ancestors)
           (concat (map (strings_within []) sp)))))"
proof -
  have "(\<lambda>(a :: string list, s :: ustring). set a \<inter> set [''style'', ''script''] = {}) =
        (\<lambda>(ancestors, s). ''style'' \<notin> set ancestors \<and> ''script'' \<notin> set ancestors)"
    by (auto simp: fun_eq_iff)
  then show ?thesis
    by (simp add: reduced_text_def stripped_strings_def strings_decompose_all_eq)
qed

theorem style_and_script_text_never_reaches_filter_witness:
  "reduced_text mixed_doc = [0x0D05, 0x0D06, 97, 0x0D07, 32, 0x0D09, 0x0D0A] \<and>
   concat (map (strings_within []) mixed_doc) =
     [([''p''], [0x0D05, 0x0D06, 97, 0x0D07]), ([''script''], [0x0D08]), ([], [32, 0x0D09, 0x0D0A, 10])]"
proof -
  have "reduced_text mixed_doc = [0x0D05, 0x0D06, 97, 0x0D07, 32, 0x0D09, 0x0D0A]"
    unfolding style_and_script_text_never_reaches_filter [of mixed_doc]
    by (simp add: mixed_doc_def strip_def isspace_def SPACE_def)
  then show ?thesis by (simp add: mixed_doc_def)
qed

text \<open>
  Claim C10. The threshold of line 74 is compared with the length of the joined string:
  with \<open>k \<ge> 1\<close> matched runs the text is returned exactly when the sum of the lengths of
  the runs plus \<open>k - 1\<close>, the joining spaces, is at least \<open>min_malayalam_words\<close>.
\<close>

theorem threshold_counts_joining_spaces:
  assumes "BeautifulSoup html_content = Some sp"
    and "runs = findall (reduced_text sp)" and "1 \<le> length runs"
  shows "process_and_check_malayalam_text BeautifulSoup html_content min_malayalam_words =
           (if min_malayalam_words \<le> int (sum_list (map length runs)) + (int (length runs) - 1)
            then Some (join [SPACE] runs) else None)"
proof -
  from assms(3) have "runs \<noteq> []" by auto
  then have "length (join [SPACE] runs) = sum_list (map length runs) + (length runs - 1)"
    by (simp add: length_join)
  with assms(3)
  have "int (length (join [SPACE] runs)) = int (sum_list (map length runs)) + (int (length runs) - 1)"
    by simp
  with assms(1,2) show ?thesis by (simp add: process_and_check_malayalam_text_def)
qed

theorem threshold_counts_joining_spaces_witness:
  "process_and_check_malayalam_text (\<lambda>b. Some mixed_doc) ''x'' 7 =
     Some [0x0D05, 0x0D06, 32, 0x0D07, 32, 0x0D09, 0x0D0A] \<and>
   sum_list (map length [[0x0D05, 0x0D06], [0x0D07], [0x0D09, 0x0D0A :: nat]]) = 5"
proof -
  have p: "(\<lambda>b::string. Some mixed_doc) ''x'' = Some mixed_doc" by simp
  have r: "[[0x0D05, 0x0D06], [0x0D07], [0x0D09, 0x0D0A]] = findall (reduced_text mixed_doc)"
    by (simp only: mixed_doc_runs)
  show ?thesis
    using threshold_counts_joining_spaces [of "\<lambda>b. Some mixed_doc" "''x''" mixed_doc _ 7, OF p r]
    by (simp add: SPACE_def)
qed

section \<open>Claims on convert_warc_to_text and main\<close>

text \<open>
  Claim C1. When the scan of an archive accepts no text block,
  \<open>convert_warc_to_text\<close> leaves the world as it found it: the metrics log has no
  new row and no file was created. (The call ends in an exception, see
  \<open>convert_no_accepted\<close>: \<open>output_file_path\<close> is unbound at line 117.)
\<close>

theorem zero_accepted_no_metrics_no_output:
  assumes "fs w warc_file_path = Some items" and "accepted_texts bs items = []"
  shows "snd (convert_warc_to_text bs warc_file_path output_dir csv w) = w"
  using convert_no_accepted [OF assms] by simp

theorem zero_accepted_no_metrics_no_output_witness:
  "accepted_texts toy_parser archive_hello = [] \<and>
   snd (convert_warc_to_text toy_parser good_path EXTRACTED_TEXT_DIRECTORY csv_file_path
          (world_of good_path archive_hello)) = world_of good_path archive_hello"
proof -
  have f: "fs (world_of good_path archive_hello) good_path = Some archive_hello"
    by (simp add: world_of_def)
  from zero_accepted_no_metrics_no_output [OF f archive_hello_accepted] archive_hello_accepted
  show ?thesis by simp
qed

text \<open>
  Claim C2. One attempt is one run of the transfer command of line 155. A retrieval with
  \<open>max_retries = n\<close> makes at most \<open>n\<close> attempts; when all of them fail the loop is
  exhausted and a wait of \<open>retry_delay\<close> follows every attempt, so one lies between each
  pair of attempts; and the driver then reports the failure by a row of the error log
  that carries the destination path.
\<close>

theorem retrieval_bounded_attempts:
  "length (filter is_attempt (events_between w (snd (download net n delay url dest w)))) \<le> n \<and>
   (all_attempts_fail net n url w \<longrightarrow>
      fst (download net n delay url dest w) = False \<and>
      events_between w (snd (download net n delay url dest w)) =
        concat (replicate n [Wget url dest n delay, Sleep delay])) \<and>
   (all_attempts_fail net MAX_RETRIES (strip_line line) w \<longrightarrow>
      last (file_content (snd (process_line bs net line w)) errors_file_path) =
        Line (ErrorRow (path_join OUTPUT_DIRECTORY (basename (strip_line line)))))"
proof (intro conjI impI)
  from retry_loop_trace [of net n delay n url dest w] obtain evs where
    "trace (snd (download net n delay url dest w)) = trace w @ evs" "length (filter is_attempt evs) \<le> n"
    by (auto simp: download_def)
  then show "length (filter is_attempt (events_between w (snd (download net n delay url dest w)))) \<le> n"
    by (simp add: events_between_def)
next
  assume "all_attempts_fail net n url w"
  then show "fst (download net n delay url dest w) = False" by (rule download_all_fail(1))
next
  assume "all_attempts_fail net n url w"
  from download_all_fail(2) [OF this]
  show "events_between w (snd (download net n delay url dest w)) =
        concat (replicate n [Wget url dest n delay, Sleep delay])"
    by (simp add: events_between_def)
next
  assume "all_attempts_fail net MAX_RETRIES (strip_line line) w"
  from process_line_all_fail [OF this]
  show "last (file_content (snd (process_line bs net line w)) errors_file_path) =
        Line (ErrorRow (path_join OUTPUT_DIRECTORY (basename (strip_line line))))"
    by simp
qed

theorem retrieval_bounded_attempts_witness:
  "all_attempts_fail net_down 3 ''u'' empty_world \<and>
   all_attempts_fail net_down MAX_RETRIES (strip_line failing_line) stale_world \<and>
   length (filter is_attempt (events_between empty_world
      (snd (download net_down 3 10 ''u'' ''d'' empty_world)))) \<le> 3 \<and>
   fst (download net_down 3 10 ''u'' ''d'' empty_world) = False \<and>
   events_between empty_world (snd (download net_down 3 10 ''u'' ''d'' empty_world)) =
     [Wget ''u'' ''d'' 3 10, Sleep 10, Wget ''u'' ''d'' 3 10, Sleep 10, Wget ''u'' ''d'' 3 10, Sleep 10] \<and>
   last (file_content (snd (process_line toy_parser net_down failing_line stale_world)) errors_file_path) =
     Line (ErrorRow ''Extracted_files/a.warc.gz'')"
proof -
  have a: "all_attempts_fail net_down 3 ''u'' empty_world" by (rule net_down_fails)
  have b: "all_attempts_fail net_down MAX_RETRIES (strip_line failing_line) stale_world"
    by (rule net_down_fails)
  have l: "path_join OUTPUT_DIRECTORY (basename (strip_line failing_line)) = ''Extracted_files/a.warc.gz''"
    by (simp add: failing_line_url path_join_def OUTPUT_DIRECTORY_def)
  have r: "concat (replicate 3 [Wget ''u'' ''d'' 3 10, Sleep 10]) =
     [Wget ''u'' ''d'' 3 10, Sleep 10, Wget ''u'' ''d'' 3 10, Sleep 10, Wget ''u'' ''d'' 3 10, Sleep 10]"
    by (simp add: eval_nat_numeral)
  from retrieval_bounded_attempts [where w = empty_world and net = net_down and n = 3 and delay = 10
      and url = "''u''" and dest = "''d''"]
    retrieval_bounded_attempts [where w = stale_world and net = net_down and line = failing_line
      and bs = toy_parser and n = 0 and url = "''u''"]
    a b
  show ?thesis by (simp add: l r)
qed

text \<open>
  Claim C5. When the path of the archive matches the pattern of line 105 with group
  \<open>token\<close>, the accepted text blocks are appended, in order, after what the file
  \<open>extracted_text_<token>.txt\<close> of the output directory already held, and the file
  exists once one block was accepted; no other file but the metrics log changes. The
  token is fourteen digits, a dash and five digits, and stands in the path right before
  \<open>.warc.gz\<close>, which ends the path (as \<open>$\<close> reads the end: \<open>at_end\<close>). Conversely
  every such path matches (\<open>re_search_complete\<close>). The metrics log is taken to be another
  file than the output file, as it is in \<open>main\<close> (\<open>output_not_log\<close>).
\<close>

theorem accepted_text_appended_to_token_file:
  assumes "fs w warc_file_path = Some items" and "re_search warc_file_path = Some token"
    and "csv \<noteq> path_join output_dir (''extracted_text_'' @ token @ ''.txt'')"
  shows "file_content (snd (convert_warc_to_text bs warc_file_path output_dir csv w))
           (path_join output_dir (''extracted_text_'' @ token @ ''.txt'')) =
         file_content w (path_join output_dir (''extracted_text_'' @ token @ ''.txt'')) @
           map Chars (accepted_texts bs items) \<and>
         (accepted_texts bs items \<noteq> [] \<longrightarrow>
            fs (snd (convert_warc_to_text bs warc_file_path output_dir csv w))
              (path_join output_dir (''extracted_text_'' @ token @ ''.txt'')) \<noteq> None) \<and>
         (\<forall>p. p \<noteq> path_join output_dir (''extracted_text_'' @ token @ ''.txt'') \<and> p \<noteq> csv \<longrightarrow>
            fs (snd (convert_warc_to_text bs warc_file_path output_dir csv w)) p = fs w p) \<and>
         (\<exists>pre rest. warc_file_path = pre @ token @ ''.warc.gz'' @ rest \<and> at_end rest) \<and>
         length token = 20 \<and> list_all isdigit (take 14 token) \<and> token ! 14 = CHR ''-'' \<and>
         list_all isdigit (drop 15 token)"
proof -
  let ?out = "path_join output_dir (''extracted_text_'' @ token @ ''.txt'')"
  let ?w' = "snd (convert_warc_to_text bs warc_file_path output_dir csv w)"
  have shape: "(\<exists>pre rest. warc_file_path = pre @ token @ ''.warc.gz'' @ rest \<and> at_end rest) \<and>
         length token = 20 \<and> list_all isdigit (take 14 token) \<and> token ! 14 = CHR ''-'' \<and>
         list_all isdigit (drop 15 token)"
    using re_search_shape [OF assms(2)] by blast
  have files: "file_content ?w' ?out = file_content w ?out @ map Chars (accepted_texts bs items) \<and>
      (accepted_texts bs items \<noteq> [] \<longrightarrow> fs ?w' ?out \<noteq> None) \<and>
      (\<forall>p. p \<noteq> ?out \<and> p \<noteq> csv \<longrightarrow> fs ?w' p = fs w p)"
  proof (cases "accepted_texts bs items = []")
    case True
    with convert_no_accepted [OF assms(1) True, of output_dir csv]
    show ?thesis by simp
  next
    case False
    show ?thesis
    proof (cases "scan_error items")
      case None
      with convert_token [OF assms(1,2) False, of output_dir csv] assms(3) False
      show ?thesis
        by (simp add: file_content_append_items fs_append_item fs_append_items)
    next
      case (Some e)
      with convert_token [OF assms(1,2) False, of output_dir csv] False
      show ?thesis
        by (simp add: file_content_append_items fs_append_items)
    qed
  qed
  from files shape show ?thesis by blast
qed

theorem accepted_text_appended_to_token_file_witness:
  "re_search good_path = Some ''20230921103711-00000'' \<and>
   file_content
     (snd (convert_warc_to_text toy_parser good_path EXTRACTED_TEXT_DIRECTORY csv_file_path
        (world_of good_path archive_ml)))
     ''Extracted Texts/extracted_text_20230921103711-00000.txt'' = [Chars ml_text]"
proof -
  have f: "fs (world_of good_path archive_ml) good_path = Some archive_ml"
    by (simp add: world_of_def)
  have o: "path_join EXTRACTED_TEXT_DIRECTORY ''extracted_text_20230921103711-00000.txt'' =
           ''Extracted Texts/extracted_text_20230921103711-00000.txt''"
    by (simp add: path_join_def EXTRACTED_TEXT_DIRECTORY_def)
  have c: "csv_file_path \<noteq>
           path_join EXTRACTED_TEXT_DIRECTORY (''extracted_text_'' @ ''20230921103711-00000'' @ ''.txt'')"
    by (simp add: path_join_def EXTRACTED_TEXT_DIRECTORY_def csv_file_path_eq)
  have e: "file_content (world_of good_path archive_ml)
             ''Extracted Texts/extracted_text_20230921103711-00000.txt'' = []"
    by (simp add: world_of_def file_content_def good_path_def)
  from accepted_text_appended_to_token_file [OF f good_path_token c, of toy_parser, THEN conjunct1]
  show ?thesis
    by (simp add: o e archive_ml_accepted good_path_token)
qed

text \<open>
  Claim C7. When the retrieval of a source entry fails on every attempt, the entry ends
  without an exception, the error log has exactly one more row, which holds the local
  destination path, the metrics log is as before, no file other than the error log and
  whatever the transfer left at the destination has changed or appeared, and the run
  goes on with the next entry.
\<close>

theorem failed_retrieval_logs_one_error_and_continues:
  assumes "all_attempts_fail net MAX_RETRIES (strip_line line) w"
  shows "\<exists>w'. process_line bs net line w = (Inr (), w') \<and>
           fs w' errors_file_path =
             Some (file_content w errors_file_path @
                   [Line (ErrorRow (path_join OUTPUT_DIRECTORY (basename (strip_line line))))]) \<and>
           fs w' csv_file_path = fs w csv_file_path \<and>
           (\<forall>p. p \<noteq> path_join OUTPUT_DIRECTORY (basename (strip_line line)) \<and> p \<noteq> errors_file_path
                \<longrightarrow> fs w' p = fs w p) \<and>
           main_loop bs net (line # lines) w = main_loop bs net lines w'"
proof -
  let ?local = "path_join OUTPUT_DIRECTORY (basename (strip_line line))"
  let ?w1 = "snd (download net MAX_RETRIES RETRY_DELAY (strip_line line) ?local w)"
  let ?w' = "append_item errors_file_path (Line (ErrorRow ?local)) ?w1"
  have p: "process_line bs net line w = (Inr (), ?w')" by (rule process_line_all_fail [OF assms])
  have e: "fs ?w1 errors_file_path = fs w errors_file_path"
    using local_not_log(2) [of "strip_line line"] by (intro download_fs_other) simp
  have c: "fs ?w1 csv_file_path = fs w csv_file_path"
    using local_not_log(1) [of "strip_line line"] by (intro download_fs_other) simp
  have 1: "fs ?w' errors_file_path = Some (file_content w errors_file_path @ [Line (ErrorRow ?local)])"
    using file_content_cong [OF e] by (simp add: fs_append_item)
  have 2: "fs ?w' csv_file_path = fs w csv_file_path"
    using c logs_differ by (simp add: fs_append_item)
  have 3: "\<forall>p. p \<noteq> ?local \<and> p \<noteq> errors_file_path \<longrightarrow> fs ?w' p = fs w p"
    by (simp add: fs_append_item download_fs_other)
  have 4: "main_loop bs net (line # lines) w = main_loop bs net lines ?w'"
    using p by simp
  from p 1 2 3 4 show ?thesis by blast
qed

theorem failed_retrieval_logs_one_error_and_continues_witness:
  "all_attempts_fail net_down MAX_RETRIES (strip_line failing_line) stale_world \<and>
   fs (snd (process_line toy_parser net_down failing_line stale_world)) errors_file_path =
     Some [Line (ErrorRow ''old''), Line (ErrorRow ''Extracted_files/a.warc.gz'')] \<and>
   fs (snd (process_line toy_parser net_down failing_line stale_world)) csv_file_path =
     Some [Line (Header METRICS_FIELDNAMES), Line (MetricsRow ''old'' ''old'')] \<and>
   main_loop toy_parser net_down [failing_line] stale_world =
     (Inr (), snd (process_line toy_parser net_down failing_line stale_world))"
proof -
  have a: "all_attempts_fail net_down MAX_RETRIES (strip_line failing_line) stale_world"
    by (rule net_down_fails)
  have l: "path_join OUTPUT_DIRECTORY (basename (strip_line failing_line)) = ''Extracted_files/a.warc.gz''"
    by (simp add: failing_line_url path_join_def OUTPUT_DIRECTORY_def)
  have e: "file_content stale_world errors_file_path = [Line (ErrorRow ''old'')]"
    by (simp add: file_content_def stale_world_def)
  have c: "fs stale_world csv_file_path =
      Some [Line (Header METRICS_FIELDNAMES), Line (MetricsRow ''old'' ''old'')]"
    using logs_differ by (simp add: stale_world_def)
  from failed_retrieval_logs_one_error_and_continues [OF a, of toy_parser "[]"]
  obtain w' where "process_line toy_parser net_down failing_line stale_world = (Inr (), w')"
    and "fs w' errors_file_path = Some (file_content stale_world errors_file_path @
          [Line (ErrorRow (path_join OUTPUT_DIRECTORY (basename (strip_line failing_line))))])"
    and "fs w' csv_file_path = fs stale_world csv_file_path"
    and "main_loop toy_parser net_down [failing_line] stale_world = main_loop toy_parser net_down [] w'"
    by blast
  with a l e c show ?thesis by simp
qed

text \<open>
  Claim C8. A run begins by replacing each of the two logs with its header row alone,
  whatever the logs held, and touches nothing else; the source entries are processed
  from that state on (or, when the list cannot be opened, the run ends there). So the
  result of a run does not depend on what the logs held before it.
\<close>

theorem run_resets_both_logs:
  "\<exists>w0. fs w0 csv_file_path = Some [Line (Header METRICS_FIELDNAMES)] \<and>
         fs w0 errors_file_path = Some [Line (Header ERRORS_FIELDNAMES)] \<and>
         (\<forall>p. p \<noteq> csv_file_path \<and> p \<noteq> errors_file_path \<longrightarrow> fs w0 p = fs w p) \<and>
         trace w0 = trace w \<and>
         main bs net url_file w =
           (case url_file of None \<Rightarrow> (Inl FileNotFoundError, w0)
            | Some lines \<Rightarrow> main_loop bs net lines w0) \<and>
         (\<forall>old_metrics old_errors.
            main bs net url_file
              (w\<lparr>fs := (fs w)(csv_file_path := old_metrics, errors_file_path := old_errors)\<rparr>) =
            main bs net url_file w)"
proof -
  define init :: "world \<Rightarrow> world" where "init = (\<lambda>v. v\<lparr>fs := (fs v)(csv_file_path \<mapsto> [Line (Header METRICS_FIELDNAMES)],
                                 errors_file_path \<mapsto> [Line (Header ERRORS_FIELDNAMES)])\<rparr>)"
  have eq: "append_item errors_file_path (Line (Header ERRORS_FIELDNAMES)) (open_w errors_file_path
              (append_item csv_file_path (Line (Header METRICS_FIELDNAMES)) (open_w csv_file_path v))) =
            init v" for v
    by (simp add: init_def append_item_def open_w_def file_content_def)
  have m: "main bs net url_file v =
           (case url_file of None \<Rightarrow> (Inl FileNotFoundError, init v)
            | Some lines \<Rightarrow> main_loop bs net lines (init v))" for v
    unfolding main_def Let_def eq ..
  have ind: "init (w\<lparr>fs := (fs w)(csv_file_path := a, errors_file_path := b)\<rparr>) = init w" for a b
    using logs_differ by (simp add: init_def fun_upd_twist)
  have 1: "fs (init w) csv_file_path = Some [Line (Header METRICS_FIELDNAMES)]"
    using logs_differ by (simp add: init_def)
  have 2: "fs (init w) errors_file_path = Some [Line (Header ERRORS_FIELDNAMES)]"
    by (simp add: init_def)
  have 3: "\<forall>p. p \<noteq> csv_file_path \<and> p \<noteq> errors_file_path \<longrightarrow> fs (init w) p = fs w p"
    by (simp add: init_def)
  have 4: "trace (init w) = trace w" by (simp add: init_def)
  have 5: "\<forall>old_metrics old_errors.
            main bs net url_file
              (w\<lparr>fs := (fs w)(csv_file_path := old_metrics, errors_file_path := old_errors)\<rparr>) =
            main bs net url_file w"
    by (simp add: m ind cong: option.case_cong)
  from 1 2 3 4 5 m [of w] show ?thesis by blast
qed

theorem run_resets_both_logs_witness:
  "fs stale_world csv_file_path =
     Some [Line (Header METRICS_FIELDNAMES), Line (MetricsRow ''old'' ''old'')] \<and>
   fst (main toy_parser net_down (Some []) stale_world) = Inr () \<and>
   fs (snd (main toy_parser net_down (Some []) stale_world)) csv_file_path =
     Some [Line (Header METRICS_FIELDNAMES)] \<and>
   fs (snd (main toy_parser net_down (Some []) stale_world)) errors_file_path =
     Some [Line (Header ERRORS_FIELDNAMES)]"
proof -
  have c: "fs stale_world csv_file_path =
      Some [Line (Header METRICS_FIELDNAMES), Line (MetricsRow ''old'' ''old'')]"
    using logs_differ by (simp add: stale_world_def)
  from run_resets_both_logs [of stale_world toy_parser net_down "Some []"]
  obtain w0 where "fs w0 csv_file_path = Some [Line (Header METRICS_FIELDNAMES)]"
    and "fs w0 errors_file_path = Some [Line (Header ERRORS_FIELDNAMES)]"
    and "main toy_parser net_down (Some []) stale_world =
           (case Some [] of None \<Rightarrow> (Inl FileNotFoundError, w0)
            | Some lines \<Rightarrow> main_loop toy_parser net_down lines w0)"
    by blast
  with c show ?thesis by simp
qed

text \<open>
  Claim C9. When the path of the archive does not match the pattern and the scan
  accepts at least one text block, \<open>convert_warc_to_text\<close> writes to no file and ends
  in an exception, which is \<open>UnboundLocalError\<close> (line 117) when the scan reached the
  end of the archive; nothing catches it, so it leaves \<open>main\<close>, and the entries that
  follow are not processed.
\<close>

theorem unmatched_path_discards_text_and_raises:
  assumes "fs w warc_file_path = Some items" and "re_search warc_file_path = None"
    and "accepted_texts bs items \<noteq> []"
  shows "convert_warc_to_text bs warc_file_path output_dir csv w =
           (Inl (case scan_error items of None \<Rightarrow> UnboundLocalError | Some e \<Rightarrow> e), w) \<and>
         (\<forall>net line lines w0.
            warc_file_path = path_join OUTPUT_DIRECTORY (basename (strip_line line)) \<and>
            download net MAX_RETRIES RETRY_DELAY (strip_line line) warc_file_path w0 = (True, w)
            \<longrightarrow> main_loop bs net (line # lines) w0 =
                  (Inl (case scan_error items of None \<Rightarrow> UnboundLocalError | Some e \<Rightarrow> e), w))"
proof (intro conjI allI impI)
  show "convert_warc_to_text bs warc_file_path output_dir csv w =
          (Inl (case scan_error items of None \<Rightarrow> UnboundLocalError | Some e \<Rightarrow> e), w)"
    by (rule convert_no_token [OF assms(1,2)])
next
  fix net line lines w0
  assume a: "warc_file_path = path_join OUTPUT_DIRECTORY (basename (strip_line line)) \<and>
          download net MAX_RETRIES RETRY_DELAY (strip_line line) warc_file_path w0 = (True, w)"
  have "process_line bs net line w0 =
          (Inl (case scan_error items of None \<Rightarrow> UnboundLocalError | Some e \<Rightarrow> e), w)"
  proof -
    from a have a1: "warc_file_path = path_join OUTPUT_DIRECTORY (basename (strip_line line))"
      by (rule conjunct1)
    from a have a2: "download net MAX_RETRIES RETRY_DELAY (strip_line line) warc_file_path w0 = (True, w)"
      by (rule conjunct2)
    show ?thesis
      unfolding process_line_def Let_def a1 [symmetric]
      by (simp add: a2 convert_no_token [OF assms(1,2)])
  qed
  then show "main_loop bs net (line # lines) w0 =
          (Inl (case scan_error items of None \<Rightarrow> UnboundLocalError | Some e \<Rightarrow> e), w)"
    by simp
qed

theorem unmatched_path_discards_text_and_raises_witness:
  "re_search bad_path = None \<and> accepted_texts toy_parser archive_ml = [ml_text] \<and>
   main_loop toy_parser net_up [''http://host/index.html'', ''http://host/other''] empty_world =
     (Inl UnboundLocalError,
      \<lparr>fs = [bad_path \<mapsto> archive_ml], trace = [Wget ''http://host/index.html'' bad_path 20 10]\<rparr>)"
proof -
  let ?w = "\<lparr>fs = [bad_path \<mapsto> archive_ml], trace = [Wget ''http://host/index.html'' bad_path 20 10]\<rparr>"
  have f: "fs ?w bad_path = Some archive_ml" by simp
  have n: "accepted_texts toy_parser archive_ml \<noteq> []" by (simp add: archive_ml_accepted)
  have b: "bad_path = path_join OUTPUT_DIRECTORY (basename (strip_line ''http://host/index.html''))"
    by (simp add: index_line bad_path_def path_join_def OUTPUT_DIRECTORY_def)
  have s: "scan_error archive_ml = None" by (simp add: archive_ml_def)
  from unmatched_path_discards_text_and_raises [OF f bad_path_no_token n,
      of EXTRACTED_TEXT_DIRECTORY csv_file_path]
  have "main_loop toy_parser net_up [''http://host/index.html'', ''http://host/other''] empty_world =
     (Inl UnboundLocalError, ?w)"
    using b download_up by (simp add: s index_line)
  with bad_path_no_token archive_ml_accepted show ?thesis by simp
qed

end
